theory Spec2Isabelle
  imports Main
begin

section \<open>Gwers: stack tracing and exception dispatch\<close>

text \<open>
  A shallow embedding of the Gwers exception framework: the class \<open>Gwers::Trace\<close>
  (trace.h, trace.cpp), the class \<open>Gwers::Exception\<close> with its macros (exception.h)
  and \<open>Exception::base_catch\<close> (exception.cpp).

  The two \<open>thread_local\<close> static members of \<open>Trace\<close> are fields of a record that
  stands for one thread; everything else the thread's code can read or write is the
  field \<open>world\<close>. Every operation takes the thread's state and returns the new one.
\<close>

subsection \<open>Thread state\<close>

record 'w thread =
  stack :: "string list"  \<comment> \<open>\<open>thread_local static list _stack\<close>, a \<open>std::vector<string>\<close>\<close>
  lock :: bool            \<comment> \<open>\<open>thread_local static bool _lock\<close>\<close>
  world :: 'w             \<comment> \<open>the rest of the program's memory\<close>

text \<open>
  The initial values of the statics: \<open>_stack {}\<close> and \<open>_lock {false}\<close>.
\<close>

definition initial :: "'w \<Rightarrow> 'w thread" where
  "initial w = \<lparr>stack = [], lock = False, world = w\<rparr>"

subsection \<open>Class Trace\<close>

text \<open>
  The constructor \<open>Trace::Trace(const string& fname)\<close>: \<open>_stack.emplace_back(fname)\<close>.
\<close>

definition Trace_Trace :: "string \<Rightarrow> 'w thread \<Rightarrow> 'w thread" where
  "Trace_Trace fname s = s\<lparr>stack := stack s @ [fname]\<rparr>"

text \<open>
  The destructor \<open>Trace::~Trace()\<close>: \<open>if (!_lock) { _stack.pop_back(); }\<close>.
  \<open>std::vector::pop_back\<close> on an empty vector has undefined behaviour; the model
  returns \<open>None\<close> there, so that reaching it is visible.
\<close>

definition pop_back :: "'a list \<Rightarrow> 'a list option" where
  "pop_back xs = (if xs = [] then None else Some (butlast xs))"

definition Trace_dtor :: "'w thread \<Rightarrow> 'w thread option" where
  "Trace_dtor s =
     (if \<not> lock s
      then (case pop_back (stack s) of
              None \<Rightarrow> None
            | Some xs \<Rightarrow> Some (s\<lparr>stack := xs\<rparr>))
      else Some s)"

text \<open>\<open>Trace::lock()\<close>: \<open>_lock = true\<close>.\<close>

definition Trace_lock :: "'w thread \<Rightarrow> 'w thread" where
  "Trace_lock s = s\<lparr>lock := True\<rparr>"

text \<open>\<open>Trace::flush()\<close>: \<open>_stack.clear(); _lock = false\<close>.\<close>

definition Trace_flush :: "'w thread \<Rightarrow> 'w thread" where
  "Trace_flush s = s\<lparr>stack := [], lock := False\<rparr>"

text \<open>
  \<open>Trace::begin()\<close> and \<open>Trace::end()\<close> are the iterators of \<open>_stack\<close>; what a
  caller reads by iterating from one to the other is the vector's content, oldest
  entry first.
\<close>

definition snapshot :: "'w thread \<Rightarrow> string list" where
  "snapshot s = stack s"

subsection \<open>Class Exception\<close>

record Exception =
  f_who :: string   \<comment> \<open>\<open>string _who\<close>\<close>
  f_what :: string  \<comment> \<open>\<open>string _what\<close>\<close>
  f_line :: int     \<comment> \<open>\<open>int _line\<close>\<close>

text \<open>
  The constructor \<open>Exception(const string& who, const string& what, int line)\<close>
  initialises the three members and calls \<open>Trace::lock()\<close> in its body. It returns
  the new object and the thread's state.
\<close>

definition Exception_Exception ::
  "string \<Rightarrow> string \<Rightarrow> int \<Rightarrow> 'w thread \<Rightarrow> Exception \<times> 'w thread" where
  "Exception_Exception wh wt ln s =
     (\<lparr>f_who = wh, f_what = wt, f_line = ln\<rparr>, Trace_lock s)"

definition who :: "Exception \<Rightarrow> string" where
  "who e = f_who e"

definition what :: "Exception \<Rightarrow> string" where
  "what e = f_what e"

definition line :: "Exception \<Rightarrow> int" where
  "line e = f_line e"

subsection \<open>Thrown objects and outcomes\<close>

text \<open>
  An object seen through the class \<open>std::exception\<close>: what a caller can learn
  from it is the text its virtual member \<open>what()\<close> returns, which is the
  description given by the most derived class of the object.
\<close>

record std_exception =
  std_what :: string

text \<open>
  \<open>what()\<close> of an object whose class is \<open>std::exception\<close> itself. The text is
  left to the implementation; the repository is built with \<open>g++\<close> (Makefile,
  \<open>CXX := g++\<close>), whose library returns this one.
\<close>

definition std_exception_what :: string where
  "std_exception_what = ''std::exception''"

text \<open>
  Copy-initialising a variable of type \<open>std::exception\<close> from an object, as the
  handler \<open>catch (std::exception e)\<close> does: the new object's class is
  \<open>std::exception\<close> whatever the class of the source was, so its \<open>what()\<close> is that
  of the base class and the description of the source is not copied.
\<close>

definition std_exception_copy :: "std_exception \<Rightarrow> std_exception" where
  "std_exception_copy e = \<lparr>std_what = std_exception_what\<rparr>"

text \<open>
  A thrown C++ object, as far as the \<open>catch\<close> clauses of this repository can tell
  objects apart: the name of its class, its \<open>Gwers::Exception\<close> base subobject when
  its class is or derives from \<open>Gwers::Exception\<close>, and its \<open>std::exception\<close> base
  subobject when its class is or derives from \<open>std::exception\<close>.
\<close>

record thrown =
  dyn_type :: string
  as_Exception :: "Exception option"
  as_std_exception :: "std_exception option"

text \<open>
  How a piece of code ends: it returns a value, it leaves by a thrown object, or it
  reaches undefined behaviour.
\<close>

datatype ('a, 'w) outcome =
    Returned 'a "'w thread"
  | Thrown thrown "'w thread"
  | Undefined

type_synonym 'w fp = "'w thread \<Rightarrow> (unit, 'w) outcome"

text \<open>\<open>enum class Type\<close> of \<open>Exception\<close>.\<close>

datatype Type = gwers | std | unknown

type_synonym 'w efp =
  "Type \<Rightarrow> Exception option \<Rightarrow> std_exception option \<Rightarrow> 'w thread \<Rightarrow> (unit, 'w) outcome"

text \<open>
  A class \<open>X\<close> that \<open>assert<X>\<close> and the macros can throw is given by what the
  expression \<open>X(l)\<close> does: it builds the object to throw and may change the thread.
\<close>

type_synonym 'w variant = "int \<Rightarrow> 'w thread \<Rightarrow> thrown \<times> 'w thread"

text \<open>
  \<open>GWX_EXCEPTION(X)\<close> under \<open>DEBUG\<close> declares
  \<open>struct X : public ::Gwers::Exception { X(int l): ::Gwers::Exception(GWX__get__who(),#X,l) {} }\<close>,
  where \<open>GWX__get__who()\<close> returns the name \<open>N\<close> given to \<open>GWX_DECLARE(N)\<close>.
\<close>

definition GWX_EXCEPTION :: "string \<Rightarrow> string \<Rightarrow> 'w variant" where
  "GWX_EXCEPTION N X l s =
     (case Exception_Exception N X l s of
        (e, s') \<Rightarrow> (\<lparr>dyn_type = X, as_Exception = Some e, as_std_exception = None\<rparr>, s'))"

text \<open>
  \<open>template<class X> void Exception::assert(bool cond, int line)\<close>:
  \<open>if (!cond) { throw X(line); }\<close>.
\<close>

definition assert :: "'w variant \<Rightarrow> bool \<Rightarrow> int \<Rightarrow> 'w fp" where
  "assert X cond ln s =
     (if \<not> cond
      then (case X ln s of (x, s') \<Rightarrow> Thrown x s')
      else Returned () s)"

text \<open>
  The statement \<open>throw Exception(who, what, line)\<close>, as the unit tests write it.
\<close>

definition throw_Exception :: "string \<Rightarrow> string \<Rightarrow> int \<Rightarrow> 'w fp" where
  "throw_Exception wh wt ln s =
     (case Exception_Exception wh wt ln s of
        (e, s') \<Rightarrow>
          Thrown \<lparr>dyn_type = ''Gwers::Exception'', as_Exception = Some e,
                  as_std_exception = None\<rparr> s')"

subsection \<open>The macros GWX_ASSERT and GWX_CHECK\<close>

text \<open>
  The condition \<open>T\<close> of a macro is a C++ expression of type \<open>bool\<close>: evaluating it
  may change the thread, and may throw.
\<close>

type_synonym 'w cond = "'w thread \<Rightarrow> (bool, 'w) outcome"

text \<open>The expression statement \<open>T;\<close>: \<open>T\<close> is evaluated and its value dropped.\<close>

definition expression_statement :: "'w cond \<Rightarrow> 'w fp" where
  "expression_statement T s =
     (case T s of
        Returned b s' \<Rightarrow> Returned () s'
      | Thrown x s' \<Rightarrow> Thrown x s'
      | Undefined \<Rightarrow> Undefined)"

text \<open>
  The call statement \<open>::Gwers::Exception::assert<X>(T,L);\<close>: the argument \<open>T\<close> is
  evaluated, then \<open>assert\<close> runs on its value.
\<close>

definition assert_call :: "'w variant \<Rightarrow> 'w cond \<Rightarrow> int \<Rightarrow> 'w fp" where
  "assert_call X T L s =
     (case T s of
        Returned b s' \<Rightarrow> assert X b L s'
      | Thrown x s' \<Rightarrow> Thrown x s'
      | Undefined \<Rightarrow> Undefined)"

text \<open>
  The first argument is whether \<open>DEBUG\<close> is defined. With \<open>DEBUG\<close> both macros
  expand to \<open>::Gwers::Exception::assert<X>(T,L);\<close>. Without it \<open>GWX_ASSERT(T,X,L)\<close>
  expands to nothing and \<open>GWX_CHECK(T,X,L)\<close> to \<open>T;\<close>.
\<close>

definition GWX_ASSERT :: "bool \<Rightarrow> 'w cond \<Rightarrow> 'w variant \<Rightarrow> int \<Rightarrow> 'w fp" where
  "GWX_ASSERT DEBUG T X L s =
     (if DEBUG then assert_call X T L s else Returned () s)"

definition GWX_CHECK :: "bool \<Rightarrow> 'w cond \<Rightarrow> 'w variant \<Rightarrow> int \<Rightarrow> 'w fp" where
  "GWX_CHECK DEBUG T X L s =
     (if DEBUG then assert_call X T L s else expression_statement T s)"

subsection \<open>Scopes\<close>

text \<open>
  A block \<open>{ Trace t(fname); body }\<close>: the constructor runs on entry and the
  destructor on every exit of the block, whether \<open>body\<close> returns or throws.
\<close>

definition Trace_scope :: "string \<Rightarrow> 'w fp \<Rightarrow> 'w fp" where
  "Trace_scope fname body s =
     (case body (Trace_Trace fname s) of
        Returned u s' \<Rightarrow>
          (case Trace_dtor s' of None \<Rightarrow> Undefined | Some s'' \<Rightarrow> Returned u s'')
      | Thrown x s' \<Rightarrow>
          (case Trace_dtor s' of None \<Rightarrow> Undefined | Some s'' \<Rightarrow> Thrown x s'')
      | Undefined \<Rightarrow> Undefined)"

text \<open>
  Blocks nested one inside the other, the first name outermost, around \<open>body\<close>.
\<close>

fun nested :: "string list \<Rightarrow> 'w fp \<Rightarrow> 'w fp" where
  "nested [] body = body"
| "nested (fname # fnames) body = Trace_scope fname (nested fnames body)"

subsection \<open>Exception::base_catch\<close>

text \<open>
  \<open>void Exception::base_catch(fp base, efp handler)\<close>: \<open>Trace::flush()\<close>, then
  \<open>base()\<close> inside a \<open>try\<close> whose handlers are, in this order,
  \<open>catch (Exception e)\<close>, \<open>catch (std::exception e)\<close> and \<open>catch (...)\<close>. Both
  named handlers catch by value: \<open>e\<close> is a copy of the matching base subobject. The
  implicit copy constructor of \<open>Exception\<close> copies the three members and does not
  call \<open>Trace::lock()\<close>; the copy of a \<open>std::exception\<close> is \<open>std_exception_copy\<close>.
  An object thrown by \<open>handler\<close> leaves \<open>base_catch\<close>.
\<close>

definition base_catch :: "'w fp \<Rightarrow> 'w efp \<Rightarrow> 'w fp" where
  "base_catch base handler s =
     (case base (Trace_flush s) of
        Returned u s' \<Rightarrow> Returned () s'
      | Thrown x s' \<Rightarrow>
          (case as_Exception x of
             Some e \<Rightarrow> handler gwers (Some e) None s'
           | None \<Rightarrow>
               (case as_std_exception x of
                  Some e \<Rightarrow> handler std None (Some (std_exception_copy e)) s'
                | None \<Rightarrow> handler unknown None None s'))
      | Undefined \<Rightarrow> Undefined)"

subsection \<open>Sequences of constructions and destructions\<close>

text \<open>
  What a thread does to its recorder between two flushes is a sequence of events:
  a \<open>Trace\<close> object is constructed with a name, or the \<open>Trace\<close> object that was
  the \<open>k\<close>-th to be constructed (counting from 0) is destroyed. The destructor does
  not look at the object it destroys, so the run does not use \<open>k\<close>.
\<close>

datatype event = Push string | Release nat

fun run_events :: "event list \<Rightarrow> 'w thread \<Rightarrow> 'w thread option" where
  "run_events [] s = Some s"
| "run_events (Push fname # evs) s = run_events evs (Trace_Trace fname s)"
| "run_events (Release k # evs) s =
     (case Trace_dtor s of None \<Rightarrow> None | Some s' \<Rightarrow> run_events evs s')"

text \<open>
  The same sequence read without the recorder: the names constructed so far, the
  objects destroyed so far, and from these the objects still alive, in the order of
  their construction.
\<close>

fun pushed :: "event list \<Rightarrow> string list" where
  "pushed [] = []"
| "pushed (Push fname # evs) = fname # pushed evs"
| "pushed (Release k # evs) = pushed evs"

fun released :: "event list \<Rightarrow> nat list" where
  "released [] = []"
| "released (Push fname # evs) = released evs"
| "released (Release k # evs) = k # released evs"

definition unreleased_ids :: "event list \<Rightarrow> nat list" where
  "unreleased_ids evs =
     filter (\<lambda>k. k \<notin> set (released evs)) [0..<length (pushed evs)]"

definition unreleased :: "event list \<Rightarrow> string list" where
  "unreleased evs = map (\<lambda>k. pushed evs ! k) (unreleased_ids evs)"

text \<open>
  Last in, first out: every destruction destroys the youngest object alive at that
  point of the sequence.
\<close>

definition lifo_at :: "event list \<Rightarrow> nat \<Rightarrow> bool" where
  "lifo_at evs i =
     (case evs ! i of
        Push fname \<Rightarrow> True
      | Release k \<Rightarrow>
          unreleased_ids (take i evs) \<noteq> [] \<and> last (unreleased_ids (take i evs)) = k)"

definition lifo :: "event list \<Rightarrow> bool" where
  "lifo evs = list_all (lifo_at evs) [0..<length evs]"

subsection \<open>Counting calls\<close>








text \<open>
  A base function that only writes down what it finds in the recorder when it
  starts.
\<close>

definition observe_recorder :: "(string list \<times> bool) fp" where
  "observe_recorder s = Returned () (s\<lparr>world := (snapshot s, lock s)\<rparr>)"

section \<open>Properties\<close>

subsection \<open>Basic facts\<close>

lemma Trace_dtor_locked: "lock s \<Longrightarrow> Trace_dtor s = Some s"
  by (simp add: Trace_dtor_def)

lemma Trace_dtor_unlocked:
  "\<not> lock s \<Longrightarrow> stack s \<noteq> [] \<Longrightarrow> Trace_dtor s = Some (s\<lparr>stack := butlast (stack s)\<rparr>)"
  by (simp add: Trace_dtor_def pop_back_def)

lemma Trace_dtor_empty: "\<not> lock s \<Longrightarrow> stack s = [] \<Longrightarrow> Trace_dtor s = None"
  by (simp add: Trace_dtor_def pop_back_def)

lemma thread_fields:
  "s\<lparr>stack := fnames, lock := b\<rparr> = \<lparr>stack = fnames, lock = b, world = world s\<rparr>"
  by (cases s) simp

subsection \<open>The constructor of Exception\<close>

text \<open>
  C6. The constructor \<open>Exception(who, what, line)\<close> returns an object whose
  \<open>who()\<close>, \<open>what()\<close> and \<open>line()\<close> are the three arguments, and the only change
  it makes to the thread is to set \<open>_lock\<close> to true: the stack and the rest of the
  memory are as before, whatever the state was.
\<close>

theorem Exception_ctor_stores_and_locks:
  "who (fst (Exception_Exception wh wt ln s)) = wh
   \<and> what (fst (Exception_Exception wh wt ln s)) = wt
   \<and> line (fst (Exception_Exception wh wt ln s)) = ln
   \<and> snd (Exception_Exception wh wt ln s) = s\<lparr>lock := True\<rparr>
   \<and> lock (snd (Exception_Exception wh wt ln s))
   \<and> snapshot (snd (Exception_Exception wh wt ln s)) = snapshot s
   \<and> world (snd (Exception_Exception wh wt ln s)) = world s"
  by (simp add: Exception_Exception_def who_def what_def line_def Trace_lock_def snapshot_def)

subsection \<open>Pushes and pops under the lock\<close>

text \<open>
  C8. The constructor of \<open>Trace\<close> does not read \<open>_lock\<close>: in any state, locked or
  not, it appends the name at the end of the stack, and so it does after
  \<open>Trace::lock()\<close>. The destructor run in the locked state changes nothing.
\<close>

theorem push_not_gated_by_lock:
  "snapshot (Trace_Trace fname s) = snapshot s @ [fname]
   \<and> lock (Trace_Trace fname s) = lock s
   \<and> lock (Trace_lock s)
   \<and> Trace_Trace fname (Trace_lock s) = (Trace_lock s)\<lparr>stack := stack s @ [fname]\<rparr>
   \<and> Trace_dtor (Trace_lock s) = Some (Trace_lock s)
   \<and> Trace_dtor (Trace_Trace fname (Trace_lock s)) = Some (Trace_Trace fname (Trace_lock s))"
  by (simp add: Trace_Trace_def Trace_lock_def Trace_dtor_def snapshot_def)

subsection \<open>The unguarded pop\<close>

text \<open>
  C10. The destructor of \<open>Trace\<close> calls \<open>pop_back\<close> whenever \<open>_lock\<close> is false,
  without looking at the stack. With \<open>_lock\<close> false, the pop is defined exactly
  when the stack is not empty (some constructed object has not yet been destroyed
  since the last flush), and then it removes the last name; on the empty stack it
  is the undefined \<open>pop_back\<close> of an empty vector. This is reached when
  \<open>Trace::flush()\<close> runs while a \<open>Trace\<close> object is alive and that object is
  destroyed afterwards.
\<close>

theorem release_needs_nonempty_stack:
  "\<not> lock s \<Longrightarrow>
     (stack s \<noteq> [] \<longrightarrow> Trace_dtor s = Some (s\<lparr>stack := butlast (stack s)\<rparr>))
     \<and> (stack s = [] \<longrightarrow> Trace_dtor s = None)
     \<and> (Trace_dtor s = None) = (snapshot s = [])
     \<and> Trace_dtor (Trace_flush (Trace_Trace fname s)) = None"
  by (simp add: Trace_dtor_def pop_back_def Trace_flush_def Trace_Trace_def snapshot_def)

theorem release_needs_nonempty_stack_witness:
  "\<not> lock (initial ())
   \<and> Trace_dtor (Trace_Trace ''f'' (Trace_Trace ''main'' (initial ()))) =
       Some (Trace_Trace ''main'' (initial ()))
   \<and> Trace_dtor (initial ()) = None
   \<and> Trace_dtor (Trace_flush (Trace_Trace ''f'' (initial ()))) = None"
  using release_needs_nonempty_stack
      [of "Trace_Trace ''f'' (Trace_Trace ''main'' (initial ()))" "''f''"]
    release_needs_nonempty_stack [of "initial ()" "''f''"]
  by (simp add: initial_def Trace_Trace_def)

subsection \<open>Exception::assert\<close>

text \<open>
  C5. For a class \<open>X\<close> declared by \<open>GWX_EXCEPTION(X)\<close> in a scope declared by
  \<open>GWX_DECLARE(N)\<close>, and any line \<open>L\<close>, \<open>assert<X>(false, L)\<close> throws an object
  of class \<open>X\<close> whose \<open>line()\<close> is \<open>L\<close>. For any class at all,
  \<open>assert<X>(true, L)\<close> returns and leaves the state as it was.
\<close>

theorem assert_raises_iff_false:
  "assert (GWX_EXCEPTION N X) False L s =
     Thrown \<lparr>dyn_type = X,
             as_Exception = Some \<lparr>f_who = N, f_what = X, f_line = L\<rparr>,
             as_std_exception = None\<rparr> (Trace_lock s)
   \<and> line \<lparr>f_who = N, f_what = X, f_line = L\<rparr> = L
   \<and> assert V True L s = Returned () s"
  by (simp add: assert_def GWX_EXCEPTION_def Exception_Exception_def line_def)

subsection \<open>The macros without DEBUG\<close>

text \<open>
  C9. Without \<open>DEBUG\<close>, \<open>GWX_ASSERT(T,X,L)\<close> is the empty statement: it returns
  in the state it started in, whatever \<open>T\<close> is, so \<open>T\<close> is not evaluated.
  \<open>GWX_CHECK(T,X,L)\<close> is the statement \<open>T;\<close> and nothing more: when \<open>T\<close> yields a
  value, true or false, the macro returns in the state \<open>T\<close> left, and nothing is
  thrown that \<open>T\<close> did not throw itself.
\<close>

theorem disabled_guards:
  "GWX_ASSERT False T X L s = Returned () s
   \<and> GWX_CHECK False T X L = expression_statement T
   \<and> (\<forall>b s'. T s = Returned b s' \<longrightarrow> GWX_CHECK False T X L s = Returned () s')
   \<and> (\<forall>x s'. T s = Thrown x s' \<longrightarrow> GWX_CHECK False T X L s = Thrown x s')"
  by (auto simp add: GWX_ASSERT_def GWX_CHECK_def expression_statement_def fun_eq_iff)

theorem disabled_guards_witness:
  "GWX_ASSERT False (\<lambda>t. Returned False (t\<lparr>world := Suc (world t)\<rparr>))
       (GWX_EXCEPTION ''mod::Thing'' ''Bad'') 66 (initial 0) = Returned () (initial 0)
   \<and> GWX_CHECK False (\<lambda>t. Returned False (t\<lparr>world := Suc (world t)\<rparr>))
       (GWX_EXCEPTION ''mod::Thing'' ''Bad'') 66 (initial 0) = Returned () (initial (Suc 0))
   \<and> GWX_CHECK True (\<lambda>t. Returned False (t\<lparr>world := Suc (world t)\<rparr>))
       (GWX_EXCEPTION ''mod::Thing'' ''Bad'') 66 (initial 0) \<noteq> Returned () (initial (Suc 0))"
  using disabled_guards [of "\<lambda>t. Returned False (t\<lparr>world := Suc (world t)\<rparr>)"
      "GWX_EXCEPTION ''mod::Thing'' ''Bad''" 66 "initial (0::nat)"]
  by (simp add: initial_def GWX_CHECK_def assert_call_def assert_def GWX_EXCEPTION_def Exception_Exception_def
      expression_statement_def)

subsection \<open>Constructions and destructions in last in, first out order\<close>

lemma run_events_append:
  "run_events (xs @ ys) s =
     (case run_events xs s of None \<Rightarrow> None | Some s' \<Rightarrow> run_events ys s')"
  by (induction xs s rule: run_events.induct) (simp_all split: option.splits)

lemma pushed_append: "pushed (xs @ ys) = pushed xs @ pushed ys"
  by (induction xs rule: pushed.induct) simp_all

lemma released_append: "released (xs @ ys) = released xs @ released ys"
  by (induction xs rule: released.induct) simp_all

lemma run_pushes:
  "run_events (map Push fnames) s = Some (s\<lparr>stack := stack s @ fnames\<rparr>)"
  by (induction fnames arbitrary: s) (simp_all add: Trace_Trace_def)

lemma run_releases_unlocked:
  "\<not> lock s \<Longrightarrow> length ks \<le> length (stack s) \<Longrightarrow>
     run_events (map Release ks) s =
       Some (s\<lparr>stack := take (length (stack s) - length ks) (stack s)\<rparr>)"
proof (induction ks arbitrary: s)
  case Nil
  then show ?case by simp
next
  case (Cons k ks)
  then have ne: "stack s \<noteq> []" by auto
  have d: "Trace_dtor s = Some (s\<lparr>stack := butlast (stack s)\<rparr>)"
    using Cons.prems(1) ne by (rule Trace_dtor_unlocked)
  have "run_events (map Release ks) (s\<lparr>stack := butlast (stack s)\<rparr>) =
      Some (s\<lparr>stack := butlast (stack s)\<rparr>
              \<lparr>stack := take (length (butlast (stack s)) - length ks) (butlast (stack s))\<rparr>)"
    using Cons.IH [of "s\<lparr>stack := butlast (stack s)\<rparr>"] Cons.prems by simp
  then show ?case
    using d Cons.prems(2) by (simp add: butlast_conv_take min_def)
qed

lemma lifo_snoc:
  "lifo (evs @ [e]) =
     (lifo evs \<and>
      (case e of Push fname \<Rightarrow> True
       | Release k \<Rightarrow> unreleased_ids evs \<noteq> [] \<and> last (unreleased_ids evs) = k))"
proof -
  have "lifo_at (evs @ [e]) i = lifo_at evs i" if "i < length evs" for i
    using that by (simp add: lifo_at_def nth_append split: event.split)
  then have "list_all (lifo_at (evs @ [e])) [0..<length evs] = list_all (lifo_at evs) [0..<length evs]"
    by (simp add: list_all_iff)
  then show ?thesis
    by (simp add: lifo_def lifo_at_def split: event.split)
qed

lemma lifo_released_bound:
  "lifo evs \<Longrightarrow> k \<in> set (released evs) \<Longrightarrow> k < length (pushed evs)"
proof (induction evs rule: rev_induct)
  case Nil
  then show ?case by simp
next
  case (snoc e evs)
  show ?case
  proof (cases e)
    case (Push fname)
    with snoc show ?thesis
      by (auto simp add: lifo_snoc pushed_append released_append less_Suc_eq)
  next
    case (Release j)
    show ?thesis
    proof (cases "k = j")
      case True
      from snoc.prems(1) Release have ne: "unreleased_ids evs \<noteq> []"
        and l: "last (unreleased_ids evs) = j"
        by (simp_all add: lifo_snoc)
      from ne have "last (unreleased_ids evs) \<in> set (unreleased_ids evs)"
        by (rule last_in_set)
      then have "j < length (pushed evs)"
        using l by (simp add: unreleased_ids_def)
      with True Release show ?thesis
        by (simp add: pushed_append)
    next
      case False
      with snoc Release show ?thesis
        by (auto simp add: lifo_snoc pushed_append released_append)
    qed
  qed
qed

lemma filter_not_last:
  "distinct xs \<Longrightarrow> xs \<noteq> [] \<Longrightarrow> filter (\<lambda>j. j \<noteq> last xs) xs = butlast xs"
proof (induction xs rule: rev_induct)
  case Nil
  then show ?case by simp
next
  case (snoc x xs)
  then have "\<forall>j\<in>set xs. j \<noteq> x" by auto
  then have "filter (\<lambda>j. j \<noteq> x) xs = xs"
    by (simp add: filter_id_conv)
  then show ?case by simp
qed

lemma unreleased_ids_push:
  "lifo evs \<Longrightarrow>
     unreleased_ids (evs @ [Push fname]) = unreleased_ids evs @ [length (pushed evs)]"
  using lifo_released_bound [of evs "length (pushed evs)"]
  by (auto simp add: unreleased_ids_def pushed_append released_append)

lemma unreleased_ids_release:
  "unreleased_ids evs \<noteq> [] \<Longrightarrow>
     unreleased_ids (evs @ [Release (last (unreleased_ids evs))]) = butlast (unreleased_ids evs)"
proof -
  assume ne: "unreleased_ids evs \<noteq> []"
  have d: "distinct (unreleased_ids evs)"
    by (simp add: unreleased_ids_def)
  have "unreleased_ids (evs @ [Release (last (unreleased_ids evs))]) =
      filter (\<lambda>j. j \<noteq> last (unreleased_ids evs)) (unreleased_ids evs)"
    by (simp add: unreleased_ids_def pushed_append released_append conj_commute)
  then show ?thesis
    using filter_not_last [OF d ne] by simp
qed

lemma unreleased_push:
  "lifo evs \<Longrightarrow> unreleased (evs @ [Push fname]) = unreleased evs @ [fname]"
proof -
  assume l: "lifo evs"
  have "\<forall>k\<in>set (unreleased_ids evs). k < length (pushed evs)"
    by (simp add: unreleased_ids_def)
  then have "map (\<lambda>k. (pushed evs @ [fname]) ! k) (unreleased_ids evs) =
      map (\<lambda>k. pushed evs ! k) (unreleased_ids evs)"
    by (simp add: nth_append)
  then show ?thesis
    by (simp add: unreleased_def unreleased_ids_push [OF l] pushed_append)
qed

lemma unreleased_release:
  "unreleased_ids evs \<noteq> [] \<Longrightarrow>
     unreleased (evs @ [Release (last (unreleased_ids evs))]) = butlast (unreleased evs)"
  by (simp add: unreleased_def unreleased_ids_release pushed_append map_butlast)

lemma run_lifo:
  "lifo evs \<Longrightarrow> \<not> lock s \<Longrightarrow> stack s = [] \<Longrightarrow>
     run_events evs s = Some (s\<lparr>stack := unreleased evs\<rparr>)"
proof (induction evs rule: rev_induct)
  case Nil
  then show ?case by (simp add: unreleased_def unreleased_ids_def)
next
  case (snoc e evs)
  from snoc.prems(1) have l: "lifo evs"
    by (simp add: lifo_snoc)
  have run: "run_events evs s = Some (s\<lparr>stack := unreleased evs\<rparr>)"
    using l snoc.prems(2,3) by (rule snoc.IH)
  show ?case
  proof (cases e)
    case (Push fname)
    then show ?thesis
      by (simp add: run_events_append run unreleased_push [OF l] Trace_Trace_def)
  next
    case (Release k)
    with snoc.prems(1) have ne: "unreleased_ids evs \<noteq> []"
      and k: "k = last (unreleased_ids evs)"
      by (simp_all add: lifo_snoc)
    from ne have ne': "unreleased evs \<noteq> []"
      by (simp add: unreleased_def)
    have "Trace_dtor (s\<lparr>stack := unreleased evs\<rparr>) = Some (s\<lparr>stack := butlast (unreleased evs)\<rparr>)"
      using snoc.prems(2) ne' by (simp add: Trace_dtor_unlocked)
    then show ?thesis
      using Release k by (simp add: run_events_append run unreleased_release [OF ne])
  qed
qed

lemma lifo_take: "lifo evs \<Longrightarrow> lifo (take n evs)"
proof (induction evs arbitrary: n rule: rev_induct)
  case Nil
  then show ?case by simp
next
  case (snoc e evs)
  show ?case
  proof (cases "n \<le> length evs")
    case True
    with snoc show ?thesis by (simp add: lifo_snoc)
  next
    case False
    with snoc.prems show ?thesis by simp
  qed
qed

lemma pushed_map_Push: "pushed (map Push fnames) = fnames"
  by (induction fnames) simp_all

lemma released_map_Push: "released (map Push fnames) = []"
  by (induction fnames) simp_all

lemma unreleased_ids_pushes: "unreleased_ids (map Push fnames) = [0..<length fnames]"
  by (simp add: unreleased_ids_def pushed_map_Push released_map_Push)

lemma lifo_pushes: "lifo (map Push fnames)"
proof (induction fnames rule: rev_induct)
  case Nil
  show ?case by (simp add: lifo_def)
next
  case (snoc fname fnames)
  then show ?case by (simp add: lifo_snoc)
qed

lemma lifo_reverse_releases:
  "j \<le> length fnames \<Longrightarrow>
     lifo (map Push fnames @ map Release (rev [length fnames - j..<length fnames]))
     \<and> unreleased_ids (map Push fnames @ map Release (rev [length fnames - j..<length fnames])) =
         [0..<length fnames - j]"
proof (induction j)
  case 0
  show ?case
    by (simp add: lifo_pushes unreleased_ids_pushes)
next
  case (Suc j)
  let ?n = "length fnames"
  let ?evs = "map Push fnames @ map Release (rev [?n - j..<?n])"
  from Suc.prems have j: "j < ?n" by simp
  from Suc have l: "lifo ?evs" and u: "unreleased_ids ?evs = [0..<?n - j]"
    by simp_all
  have "[?n - Suc j..<?n] = (?n - Suc j) # [?n - j..<?n]"
    using j by (simp add: upt_conv_Cons Suc_diff_Suc)
  then have step: "map Push fnames @ map Release (rev [?n - Suc j..<?n]) =
      ?evs @ [Release (?n - Suc j)]"
    by simp
  have ne: "unreleased_ids ?evs \<noteq> []"
    using u j by simp
  have "?n - j = Suc (?n - Suc j)"
    using j by simp
  then have la: "last (unreleased_ids ?evs) = ?n - Suc j"
    using u by simp
  have "lifo (?evs @ [Release (?n - Suc j)])"
    using l ne la by (subst lifo_snoc) simp
  moreover have "unreleased_ids (?evs @ [Release (?n - Suc j)]) = [0..<?n - Suc j]"
    using unreleased_ids_release [OF ne] la u \<open>?n - j = Suc (?n - Suc j)\<close> by simp
  ultimately show ?case
    by (simp only: step)
qed

lemma lifo_canonical: "lifo (map Push fnames @ map Release (rev [0..<length fnames]))"
  using lifo_reverse_releases [of "length fnames" fnames] by simp

text \<open>
  C7. After a flush, constructing \<open>Trace\<close> objects with the names \<open>fnames\<close> leaves
  exactly these names on the stack, oldest first; destroying them in the reverse
  order of their construction is a last in, first out sequence and ends with the
  empty stack. At every point of any last in, first out sequence of constructions
  and destructions run after a flush, the stack holds exactly the names of the
  objects constructed and not yet destroyed, in the order of their construction.
\<close>

theorem snapshot_is_unreleased_pushes:
  "map_option snapshot (run_events (map Push fnames) (Trace_flush s)) = Some fnames
   \<and> lifo (map Push fnames @ map Release (rev [0..<length fnames]))
   \<and> run_events (map Push fnames @ map Release (rev [0..<length fnames])) (Trace_flush s) =
       Some (Trace_flush s)
   \<and> snapshot (Trace_flush s) = []
   \<and> (lifo evs \<longrightarrow>
        (\<forall>n\<le>length evs.
           map_option snapshot (run_events (take n evs) (Trace_flush s)) =
             Some (unreleased (take n evs))))"
proof -
  have u: "\<not> lock (Trace_flush s)" and e: "stack (Trace_flush s) = []"
    by (simp_all add: Trace_flush_def)
  have a: "map_option snapshot (run_events (map Push fnames) (Trace_flush s)) = Some fnames"
    by (simp add: run_pushes snapshot_def e)
  have b: "run_events (map Push fnames @ map Release (rev [0..<length fnames])) (Trace_flush s) =
       Some (Trace_flush s)"
    using run_releases_unlocked [of "(Trace_flush s)\<lparr>stack := fnames\<rparr>" "rev [0..<length fnames]"] u
    by (simp add: run_events_append run_pushes e Trace_flush_def)
  have c: "map_option snapshot (run_events (take n evs) (Trace_flush s)) =
             Some (unreleased (take n evs))" if "lifo evs" for n
    using run_lifo [OF lifo_take [OF that] u e, of n] by (simp add: snapshot_def)
  have d: "snapshot (Trace_flush s) = []"
    by (simp add: snapshot_def e)
  from a b c d lifo_canonical [of fnames] show ?thesis by blast
qed

theorem snapshot_is_unreleased_pushes_witness:
  "lifo [Push ''a'', Push ''b'', Release 1, Push ''c'', Release 2, Release 0]
   \<and> map_option snapshot
        (run_events (take 4 [Push ''a'', Push ''b'', Release 1, Push ''c'', Release 2, Release 0])
           (Trace_flush (initial ()))) = Some [''a'', ''c'']
   \<and> map_option snapshot
        (run_events (take 6 [Push ''a'', Push ''b'', Release 1, Push ''c'', Release 2, Release 0])
           (Trace_flush (initial ()))) = Some []"
proof -
  let ?evs = "[Push ''a'', Push ''b'', Release 1, Push ''c'', Release 2, Release 0]"
  have l: "lifo ?evs"
    by code_simp
  have u4: "unreleased (take 4 ?evs) = [''a'', ''c'']"
    by code_simp
  have u6: "unreleased (take 6 ?evs) = []"
    by code_simp
  from snapshot_is_unreleased_pushes [of "[]" "initial ()" ?evs] l
  have all: "\<forall>n\<le>length ?evs.
      map_option snapshot (run_events (take n ?evs) (Trace_flush (initial ()))) =
        Some (unreleased (take n ?evs))"
    by blast
  have "map_option snapshot (run_events (take 4 ?evs) (Trace_flush (initial ()))) =
        Some (unreleased (take 4 ?evs))"
    using all by (rule allE [where x = 4]) simp
  moreover have "map_option snapshot (run_events (take 6 ?evs) (Trace_flush (initial ()))) =
        Some (unreleased (take 6 ?evs))"
    using all by (rule allE [where x = 6]) simp
  ultimately show ?thesis
    using l by (simp only: u4 u6 simp_thms)
qed

subsection \<open>The locked stack during unwinding\<close>

lemma nested_throw_Exception:
  "nested fnames (throw_Exception wh wt ln) s =
     Thrown \<lparr>dyn_type = ''Gwers::Exception'',
             as_Exception = Some \<lparr>f_who = wh, f_what = wt, f_line = ln\<rparr>,
             as_std_exception = None\<rparr>
       (s\<lparr>stack := stack s @ fnames, lock := True\<rparr>)"
proof (induction fnames arbitrary: s)
  case Nil
  show ?case
    by (simp add: throw_Exception_def Exception_Exception_def Trace_lock_def)
next
  case (Cons fname fnames)
  show ?case
    by (simp add: Cons.IH Trace_scope_def Trace_Trace_def Trace_dtor_def)
qed

lemma nested_Thrown_locked:
  "body (s\<lparr>stack := stack s @ fnames\<rparr>) = Thrown x t \<Longrightarrow> lock t \<Longrightarrow>
     nested fnames body s = Thrown x t"
proof (induction fnames arbitrary: s)
  case Nil
  then show ?case by simp
next
  case (Cons fname fnames)
  have "nested fnames body (Trace_Trace fname s) = Thrown x t"
    using Cons.prems by (intro Cons.IH) (simp_all add: Trace_Trace_def)
  then show ?case
    using Cons.prems(2) by (simp add: Trace_scope_def Trace_dtor_locked)
qed

lemma run_releases_locked: "lock s \<Longrightarrow> run_events (map Release ks) s = Some s"
  by (induction ks) (simp_all add: Trace_dtor_locked)

text \<open>
  C1. When \<open>base\<close> enters the nested scopes \<open>fnames\<close> and, in the innermost
  one, throws a \<open>Gwers::Exception\<close> or fails an \<open>assert\<close> of a declared exception,
  every scope is left by unwinding and \<open>base_catch\<close> calls the handler in a state
  whose stack is still \<open>fnames\<close>, in the order of entry. More generally,
  constructing an \<open>Exception\<close> in any state keeps the stack, and any number of
  destructor calls after it leave the state as it is.
\<close>

theorem frozen_stack_survives_unwinding:
  "base_catch (nested fnames (throw_Exception wh wt ln)) handler s =
     handler gwers (Some \<lparr>f_who = wh, f_what = wt, f_line = ln\<rparr>) None
       \<lparr>stack = fnames, lock = True, world = world s\<rparr>
   \<and> base_catch (nested fnames (assert (GWX_EXCEPTION wh wt) False ln)) handler s =
       handler gwers (Some \<lparr>f_who = wh, f_what = wt, f_line = ln\<rparr>) None
         \<lparr>stack = fnames, lock = True, world = world s\<rparr>
   \<and> snapshot \<lparr>stack = fnames, lock = True, world = world s\<rparr> = fnames
   \<and> snapshot (snd (Exception_Exception wh wt ln s)) = snapshot s
   \<and> run_events (map Release ks) (snd (Exception_Exception wh wt ln s)) =
       Some (snd (Exception_Exception wh wt ln s))"
proof -
  let ?t = "\<lparr>stack = fnames, lock = True, world = world s\<rparr>"
  have a: "nested fnames (assert (GWX_EXCEPTION wh wt) False ln) (Trace_flush s) =
      Thrown \<lparr>dyn_type = wt,
              as_Exception = Some \<lparr>f_who = wh, f_what = wt, f_line = ln\<rparr>,
              as_std_exception = None\<rparr> ?t"
    by (rule nested_Thrown_locked)
       (simp_all add: assert_def GWX_EXCEPTION_def Exception_Exception_def Trace_lock_def
          Trace_flush_def thread_fields)
  have b: "base_catch (nested fnames (assert (GWX_EXCEPTION wh wt) False ln)) handler s =
       handler gwers (Some \<lparr>f_who = wh, f_what = wt, f_line = ln\<rparr>) None ?t"
    by (simp add: base_catch_def a)
  have c: "base_catch (nested fnames (throw_Exception wh wt ln)) handler s =
     handler gwers (Some \<lparr>f_who = wh, f_what = wt, f_line = ln\<rparr>) None ?t"
    by (simp add: base_catch_def nested_throw_Exception Trace_flush_def thread_fields)
  have d: "run_events (map Release ks) (snd (Exception_Exception wh wt ln s)) =
       Some (snd (Exception_Exception wh wt ln s))"
    by (simp add: run_releases_locked Exception_Exception_def Trace_lock_def)
  show ?thesis
    using b c d by (simp add: snapshot_def Exception_Exception_def Trace_lock_def)
qed

subsection \<open>Classification in base_catch\<close>

text \<open>
  When an object thrown by \<open>base\<close> reaches \<open>base_catch\<close>, the handler is called in
  exactly one of three ways, decided by the class of the object: with
  \<open>Type::gwers\<close> and a copy of the \<open>Exception\<close>, else with \<open>Type::std\<close> and a copy
  of the \<open>std::exception\<close>, else with \<open>Type::unknown\<close> and two null pointers.
\<close>

lemma base_catch_dispatch:
  "base (Trace_flush s) = Thrown x s' \<Longrightarrow>
     (\<forall>e. as_Exception x = Some e \<longrightarrow>
        base_catch base handler s = handler gwers (Some e) None s')
     \<and> (\<forall>d. as_Exception x = None \<and> as_std_exception x = Some d \<longrightarrow>
        base_catch base handler s = handler std None (Some (std_exception_copy d)) s')
     \<and> (as_Exception x = None \<and> as_std_exception x = None \<longrightarrow>
        base_catch base handler s = handler unknown None None s')"
  by (simp add: base_catch_def)

text \<open>
  The \<open>std::exception\<close> the handler gets does not depend on the description of the
  object that was thrown.
\<close>

lemma base_catch_std_payload:
  "base (Trace_flush s) = Thrown x s' \<Longrightarrow> as_Exception x = None \<Longrightarrow>
     as_std_exception x = Some d \<Longrightarrow>
     base_catch base handler s = handler std None (Some \<lparr>std_what = std_exception_what\<rparr>) s'"
  by (simp add: base_catch_def std_exception_copy_def)

text \<open>
  C2. A base function that throws \<open>std::runtime_error("oops")\<close>, which is a
  \<open>std::exception\<close> and not a \<open>Gwers::Exception\<close>, and a handler that writes down
  its three arguments: the handler is called with \<open>Type::std\<close>, a null \<open>Exception\<close>
  pointer and a \<open>std::exception\<close> whose \<open>what()\<close> is the text of the base class, not
  \<open>oops\<close>; a failure with another description gives the very same call. The
  classification is the one the object's class calls for, but the description of
  the failure does not reach the handler: \<open>catch (std::exception e)\<close> catches by
  value.
\<close>

theorem foreign_description_lost:
  "base_catch
      (Thrown \<lparr>dyn_type = ''std::runtime_error'', as_Exception = None,
               as_std_exception = Some \<lparr>std_what = ''oops''\<rparr>\<rparr>)
      (\<lambda>t e sd s. Returned () (s\<lparr>world := Some (t, e, sd)\<rparr>)) (initial None) =
     Returned ()
       \<lparr>stack = [], lock = False,
        world = Some (std, None, Some \<lparr>std_what = ''std::exception''\<rparr>)\<rparr>
   \<and> std_what \<lparr>std_what = ''std::exception''\<rparr> \<noteq> ''oops''
   \<and> base_catch
        (Thrown \<lparr>dyn_type = ''std::runtime_error'', as_Exception = None,
                 as_std_exception = Some \<lparr>std_what = ''oops''\<rparr>\<rparr>)
        (\<lambda>t e sd s. Returned () (s\<lparr>world := Some (t, e, sd)\<rparr>)) (initial None) =
       base_catch
        (Thrown \<lparr>dyn_type = ''std::runtime_error'', as_Exception = None,
                 as_std_exception = Some \<lparr>std_what = ''disk full''\<rparr>\<rparr>)
        (\<lambda>t e sd s. Returned () (s\<lparr>world := Some (t, e, sd)\<rparr>)) (initial None)"
  by (simp add: base_catch_def std_exception_copy_def std_exception_what_def Trace_flush_def
      initial_def)

subsection \<open>Calls made by base_catch\<close>





subsection \<open>The flush at the start of base_catch\<close>

text \<open>
  C4. Whatever the recorder held when \<open>base_catch\<close> is called, \<open>base\<close> starts with
  the empty stack and \<open>_lock\<close> false: a base function that writes down what it
  finds writes down exactly that. So the run depends on the earlier state only
  through the rest of the memory: it is the run from the initial recorder, and two
  states with the same memory give the same run.
\<close>

theorem reset_at_start:
  "base_catch observe_recorder handler1 s1 =
     Returned () \<lparr>stack = [], lock = False, world = ([], False)\<rparr>
   \<and> base_catch base handler s = base_catch base handler (initial (world s))
   \<and> (world s = world s2 \<longrightarrow> base_catch base handler s = base_catch base handler s2)"
  by (simp add: base_catch_def observe_recorder_def Trace_flush_def snapshot_def initial_def
      thread_fields)

theorem reset_at_start_witness:
  "base_catch (nested [''first'', ''second''] (throw_Exception ''mod::Thing'' ''Bad'' 66))
      (\<lambda>t e sd s. Returned () s) (initial ([''junk''], True)) =
     Returned () \<lparr>stack = [''first'', ''second''], lock = True, world = ([''junk''], True)\<rparr>
   \<and> base_catch observe_recorder (\<lambda>t e sd s. Returned () s)
        \<lparr>stack = [''first'', ''second''], lock = True, world = ([''junk''], True)\<rparr> =
       Returned () \<lparr>stack = [], lock = False, world = ([], False)\<rparr>
   \<and> base_catch observe_recorder (\<lambda>t e sd s. Returned () s)
        \<lparr>stack = [''first'', ''second''], lock = True, world = ([''junk''], True)\<rparr> =
       base_catch observe_recorder (\<lambda>t e sd s. Returned () s) (initial ([''junk''], True))"
proof -
  let ?h = "\<lambda>t e sd s. Returned () s :: (unit, string list \<times> bool) outcome"
  let ?s1 = "\<lparr>stack = [''first'', ''second''], lock = True, world = ([''junk''], True)\<rparr>"
  have first: "base_catch (nested [''first'', ''second''] (throw_Exception ''mod::Thing'' ''Bad'' 66))
      ?h (initial ([''junk''], True)) = Returned () ?s1"
    by (simp add: base_catch_def Trace_scope_def Trace_Trace_def Trace_dtor_def
        throw_Exception_def Exception_Exception_def Trace_lock_def Trace_flush_def initial_def)
  from reset_at_start [of ?h ?s1 observe_recorder ?h ?s1 "initial ([''junk''], True)"]
  show ?thesis
    using first
    by (simp add: initial_def base_catch_def observe_recorder_def Trace_flush_def snapshot_def)
qed

end
